theory Spec2Isabelle
  imports Complex_Main
begin

section \<open>Heredity: exact inference over a pedigree by enumeration\<close>

text \<open>
  A shallow embedding of \<^verbatim>\<open>heredity.py\<close>. Python floats are modelled as exact
  real numbers: every statement below is about the arithmetic the program writes down,
  not about IEEE rounding. Exceptions are values of type \<open>py_error + 'a\<close>.
\<close>

datatype py_error = KeyError | ZeroDivisionError

definition dict_get :: "('k \<rightharpoonup> 'v) \<Rightarrow> 'k \<Rightarrow> py_error + 'v" where
  "dict_get d k = (case d k of None \<Rightarrow> Inl KeyError | Some v \<Rightarrow> Inr v)"

definition bind_err :: "py_error + 'a \<Rightarrow> ('a \<Rightarrow> py_error + 'b) \<Rightarrow> py_error + 'b" where
  "bind_err m f = (case m of Inl e \<Rightarrow> Inl e | Inr v \<Rightarrow> f v)"

subsection \<open>The constant tables \<^verbatim>\<open>PROBS\<close>\<close>

definition PROBS_gene :: "nat \<rightharpoonup> real" where
  "PROBS_gene = [2 \<mapsto> 0.01, 1 \<mapsto> 0.03, 0 \<mapsto> 0.96]"

definition PROBS_trait :: "nat \<rightharpoonup> (bool \<rightharpoonup> real)" where
  "PROBS_trait =
     [2 \<mapsto> [True \<mapsto> 0.65, False \<mapsto> 0.35],
      1 \<mapsto> [True \<mapsto> 0.56, False \<mapsto> 0.44],
      0 \<mapsto> [True \<mapsto> 0.01, False \<mapsto> 0.99]]"

definition PROBS_mutation :: real where
  "PROBS_mutation = 0.01"

subsection \<open>The gene matrix\<close>

text \<open>
  The numpy array is a list of lists of lists; \<open>set3\<close> is the assignment
  \<^verbatim>\<open>gene_matrix[x][y][z] = v\<close> and \<open>get3\<close> the read \<^verbatim>\<open>gene_matrix[x][y][z]\<close>.
  Every index the program uses is one of the literals 0, 1, 2, inside the 3 x 3 x 3 array.
\<close>

type_synonym matrix3 = "real list list list"

definition zeros3 :: matrix3 where
  "zeros3 = replicate 3 (replicate 3 (replicate 3 0))"

definition get3 :: "matrix3 \<Rightarrow> nat \<Rightarrow> nat \<Rightarrow> nat \<Rightarrow> real" where
  "get3 g x y z = g ! x ! y ! z"

definition set3 :: "matrix3 \<Rightarrow> nat \<Rightarrow> nat \<Rightarrow> nat \<Rightarrow> real \<Rightarrow> matrix3" where
  "set3 g x y z v = g[x := (g ! x)[y := (g ! x ! y)[z := v]]]"

definition create_gene_matrix :: matrix3 where
  "create_gene_matrix =
    (let P_M = PROBS_mutation;
         P_NM = 1 - PROBS_mutation;
         g = zeros3;
         g = set3 g 0 0 0 (P_NM^2);
         g = set3 g 0 1 0 (0.5 * P_M * P_NM + 0.5 * P_NM^2);
         g = set3 g 0 2 0 (P_NM * P_M);
         g = set3 g 0 0 1 (get3 g 0 1 0);
         g = set3 g 0 1 1 ((0.5 * P_M)^2 + 0.5 * P_M * P_NM + (0.5 * P_NM)^2);
         g = set3 g 0 2 1 (0.5 * P_NM * P_M);
         g = set3 g 0 0 2 (get3 g 0 2 0);
         g = set3 g 0 1 2 (get3 g 0 2 1);
         g = set3 g 0 2 2 (P_M^2);
         g = set3 g 1 0 0 (2 * P_M * P_NM);
         g = set3 g 1 1 0 (0.5 * P_NM^2 + P_M * P_NM + 0.5 * P_M^2);
         g = set3 g 1 2 0 (P_M^2 + P_NM^2);
         g = set3 g 1 0 1 (get3 g 1 1 0);
         g = set3 g 1 1 1 (get3 g 1 1 0);
         g = set3 g 1 2 1 (get3 g 1 1 0);
         g = set3 g 1 0 2 (get3 g 1 2 0);
         g = set3 g 1 1 2 (get3 g 1 2 1);
         g = set3 g 1 2 2 (get3 g 1 0 0);
         g = set3 g 2 0 0 (get3 g 0 2 2);
         g = set3 g 2 1 0 (0.5 * P_M^2 + 0.5 * P_M * P_NM);
         g = set3 g 2 2 0 (get3 g 0 2 0);
         g = set3 g 2 0 1 (get3 g 2 1 0);
         g = set3 g 2 1 1 (0.25 * P_M^2 + 0.5 * P_M * P_NM + 0.25 * P_NM^2);
         g = set3 g 2 2 1 (get3 g 0 1 0);
         g = set3 g 2 0 2 (get3 g 2 2 0);
         g = set3 g 2 1 2 (get3 g 2 2 1);
         g = set3 g 2 2 2 (get3 g 0 0 0)
     in g)"

text \<open>
  The derivation of the specification: \<open>q g\<close> is the probability that a parent with
  \<open>g\<close> copies passes the variant on, and the child's count is the number of variants
  passed on by the two parents.
\<close>

definition spec_q :: "real \<Rightarrow> nat \<Rightarrow> real" where
  "spec_q m g = (if g = 0 then m else if g = 1 then 0.5 else 1 - m)"

definition spec_transition :: "real \<Rightarrow> nat \<Rightarrow> nat \<Rightarrow> nat \<Rightarrow> real" where
  "spec_transition m c pA pB =
     (if c = 2 then spec_q m pA * spec_q m pB
      else if c = 0 then (1 - spec_q m pA) * (1 - spec_q m pB)
      else spec_q m pA * (1 - spec_q m pB) + (1 - spec_q m pA) * spec_q m pB)"

definition row_sum :: "matrix3 \<Rightarrow> nat \<Rightarrow> nat \<Rightarrow> real" where
  "row_sum g pA pB = (\<Sum>c\<leftarrow>[0, 1, 2]. get3 g c pA pB)"

subsection \<open>The person table\<close>

text \<open>
  \<^verbatim>\<open>people\<close> is a dictionary from a name to the person's row; it is an association
  list in insertion order, the order in which \<^verbatim>\<open>for person in people\<close> visits it.
  \<^verbatim>\<open>people[person]\<close> is \<open>dict_get (map_of people) person\<close>.
\<close>

record person =
  name :: string
  mother :: "string option"
  father :: "string option"
  trait :: "bool option"

type_synonym people = "(string \<times> person) list"

text \<open>
  The table the program expects (the docstring of \<^verbatim>\<open>load_data\<close>): the keys are
  distinct, and mother and father are both blank or both names of the table.
\<close>

definition parent_ok :: "people \<Rightarrow> string option \<Rightarrow> bool" where
  "parent_ok people par = (case par of None \<Rightarrow> True | Some n \<Rightarrow> n \<in> set (map fst people))"

definition wf_people :: "people \<Rightarrow> bool" where
  "wf_people people \<longleftrightarrow>
     distinct (map fst people) \<and>
     list_all (\<lambda>(n, r). (mother r = None \<longleftrightarrow> father r = None)
                        \<and> parent_ok people (mother r) \<and> parent_ok people (father r)) people"

subsection \<open>\<^verbatim>\<open>joint_probability\<close>\<close>

definition genes_of :: "string set \<Rightarrow> string set \<Rightarrow> string \<Rightarrow> nat" where
  "genes_of one_gene two_genes person =
     (if person \<in> one_gene then 1 else if person \<in> two_genes then 2 else 0)"

text \<open>
  The dictionary \<^verbatim>\<open>ref\<close> built by the first loop; an entry is the pair of
  \<^verbatim>\<open>'genes'\<close> and \<^verbatim>\<open>'trait'\<close>.
\<close>

definition build_ref ::
  "people \<Rightarrow> string set \<Rightarrow> string set \<Rightarrow> string set \<Rightarrow> (string \<rightharpoonup> nat \<times> bool)" where
  "build_ref people one_gene two_genes have_trait =
     fold (\<lambda>person ref. ref(person \<mapsto> (genes_of one_gene two_genes person, person \<in> have_trait)))
       (map fst people) Map.empty"

text \<open>
  The body of the second loop: the number appended to \<^verbatim>\<open>joint_prob\<close> for one
  person. \<^verbatim>\<open>ref[None]\<close> is a KeyError, as \<open>None\<close> is no key of \<^verbatim>\<open>ref\<close>.
\<close>

definition person_prob ::
  "people \<Rightarrow> matrix3 \<Rightarrow> (string \<rightharpoonup> nat \<times> bool) \<Rightarrow> string \<Rightarrow> py_error + real" where
  "person_prob people gene_matrix ref person =
     bind_err (dict_get (map_of people) person) (\<lambda>row.
       if mother row = None then
         bind_err (dict_get ref person) (\<lambda>me.
         bind_err (dict_get PROBS_gene (fst me)) (\<lambda>gene_prob.
         bind_err (dict_get PROBS_trait (fst me)) (\<lambda>by_trait.
         bind_err (dict_get by_trait (snd me)) (\<lambda>trait_prob.
           Inr (gene_prob * trait_prob)))))
       else
         bind_err (dict_get ref person) (\<lambda>me.
         bind_err (case father row of None \<Rightarrow> Inl KeyError | Some f \<Rightarrow> dict_get ref f) (\<lambda>fa.
         bind_err (case mother row of None \<Rightarrow> Inl KeyError | Some m \<Rightarrow> dict_get ref m) (\<lambda>mo.
         bind_err (dict_get PROBS_trait (fst me)) (\<lambda>by_trait.
         bind_err (dict_get by_trait (snd me)) (\<lambda>trait_prob.
           Inr (get3 gene_matrix (fst me) (fst fa) (fst mo) * trait_prob)))))))"

fun joint_prob_loop ::
  "people \<Rightarrow> matrix3 \<Rightarrow> (string \<rightharpoonup> nat \<times> bool) \<Rightarrow> string list \<Rightarrow> real list
     \<Rightarrow> py_error + real list" where
  "joint_prob_loop people gene_matrix ref [] joint_prob = Inr joint_prob"
| "joint_prob_loop people gene_matrix ref (person # rest) joint_prob =
     bind_err (person_prob people gene_matrix ref person) (\<lambda>x.
       joint_prob_loop people gene_matrix ref rest (joint_prob @ [x]))"

definition joint_probability ::
  "people \<Rightarrow> string set \<Rightarrow> string set \<Rightarrow> string set \<Rightarrow> py_error + real" where
  "joint_probability people one_gene two_genes have_trait =
     (let gene_matrix = create_gene_matrix;
          ref = build_ref people one_gene two_genes have_trait
      in bind_err (joint_prob_loop people gene_matrix ref (map fst people) [])
           (\<lambda>joint_prob. Inr (fold (\<lambda>item final_prob. final_prob * item) joint_prob 1)))"

text \<open>
  The evaluator as the specification words it: per person a gene factor and a trait
  factor, all multiplied.
\<close>

definition spec_gene_factor ::
  "string set \<Rightarrow> string set \<Rightarrow> string \<Rightarrow> person \<Rightarrow> real" where
  "spec_gene_factor one_gene two_genes n r =
     (case (father r, mother r) of
        (Some f, Some m) \<Rightarrow>
          get3 create_gene_matrix (genes_of one_gene two_genes n)
            (genes_of one_gene two_genes f) (genes_of one_gene two_genes m)
      | _ \<Rightarrow> (case PROBS_gene (genes_of one_gene two_genes n) of Some v \<Rightarrow> v | None \<Rightarrow> 0))"

definition spec_trait_factor ::
  "string set \<Rightarrow> string set \<Rightarrow> string set \<Rightarrow> string \<Rightarrow> real" where
  "spec_trait_factor one_gene two_genes have_trait n =
     (case PROBS_trait (genes_of one_gene two_genes n) of
        Some by_trait \<Rightarrow> (case by_trait (n \<in> have_trait) of Some v \<Rightarrow> v | None \<Rightarrow> 0)
      | None \<Rightarrow> 0)"

definition spec_joint ::
  "people \<Rightarrow> string set \<Rightarrow> string set \<Rightarrow> string set \<Rightarrow> real" where
  "spec_joint people one_gene two_genes have_trait =
     (\<Prod>(n, r)\<leftarrow>people. spec_gene_factor one_gene two_genes n r
                          * spec_trait_factor one_gene two_genes have_trait n)"

subsection \<open>\<^verbatim>\<open>update\<close> and \<^verbatim>\<open>normalize\<close>\<close>

text \<open>
  One person's entry of \<^verbatim>\<open>probabilities\<close>: the dictionary \<^verbatim>\<open>"gene"\<close> with the
  keys 0, 1, 2 and the dictionary \<^verbatim>\<open>"trait"\<close> with the keys True, False. The keys
  never change, so each is a function on its keys.
\<close>

record distribution =
  gene :: "nat \<Rightarrow> real"
  trait_dist :: "bool \<Rightarrow> real"

type_synonym probabilities = "(string \<times> distribution) list"

definition update_person ::
  "string set \<Rightarrow> string set \<Rightarrow> string set \<Rightarrow> real \<Rightarrow> string \<Rightarrow> distribution \<Rightarrow> distribution" where
  "update_person one_gene two_genes have_trait p person d =
     (let d = (if person \<in> one_gene then d\<lparr>gene := (gene d)(1 := gene d 1 + p)\<rparr>
               else if person \<in> two_genes then d\<lparr>gene := (gene d)(2 := gene d 2 + p)\<rparr>
               else d\<lparr>gene := (gene d)(0 := gene d 0 + p)\<rparr>)
      in if person \<in> have_trait
         then d\<lparr>trait_dist := (trait_dist d)(True := trait_dist d True + p)\<rparr>
         else d\<lparr>trait_dist := (trait_dist d)(False := trait_dist d False + p)\<rparr>)"

definition update ::
  "probabilities \<Rightarrow> string set \<Rightarrow> string set \<Rightarrow> string set \<Rightarrow> real \<Rightarrow> probabilities" where
  "update probabilities one_gene two_genes have_trait p =
     map (\<lambda>(person, d). (person, update_person one_gene two_genes have_trait p person d))
       probabilities"

definition gene_total :: "distribution \<Rightarrow> real" where
  "gene_total d = (\<Sum>n\<leftarrow>[0, 1, 2]. gene d n)"

definition trait_total :: "distribution \<Rightarrow> real" where
  "trait_total d = (\<Sum>t\<leftarrow>[True, False]. trait_dist d t)"

text \<open>
  \<^verbatim>\<open>1 / gene_total\<close> and \<^verbatim>\<open>1 / trait_total\<close> raise ZeroDivisionError on a zero
  total; nothing in \<^verbatim>\<open>normalize\<close> or in its caller catches it.
\<close>

definition normalize_person :: "distribution \<Rightarrow> py_error + distribution" where
  "normalize_person d =
     (let gene_total = gene_total d; trait_total = trait_total d
      in if gene_total = 0 then Inl ZeroDivisionError
         else let alpha = 1 / gene_total
         in if trait_total = 0 then Inl ZeroDivisionError
         else let beta = 1 / trait_total
         in Inr \<lparr>gene = (gene d)(0 := gene d 0 * alpha, 1 := gene d 1 * alpha,
                                  2 := gene d 2 * alpha),
                 trait_dist = (trait_dist d)(True := trait_dist d True * beta,
                                             False := trait_dist d False * beta)\<rparr>)"

fun normalize :: "probabilities \<Rightarrow> py_error + probabilities" where
  "normalize [] = Inr []"
| "normalize ((person, d) # rest) =
     bind_err (normalize_person d) (\<lambda>d'.
     bind_err (normalize rest) (\<lambda>rest'. Inr ((person, d') # rest')))"

subsection \<open>\<^verbatim>\<open>powerset\<close> and the loops of \<^verbatim>\<open>main\<close>\<close>

text \<open>
  \<^verbatim>\<open>itertools.combinations(s, r)\<close>: the subsequences of \<open>s\<close> of length \<open>r\<close>, in
  the lexicographic order of their positions.
\<close>

fun combinations :: "'a list \<Rightarrow> nat \<Rightarrow> 'a list list" where
  "combinations xs 0 = [[]]"
| "combinations [] (Suc r) = []"
| "combinations (x # xs) (Suc r) = map ((#) x) (combinations xs r) @ combinations xs (Suc r)"

text \<open>
  Python visits the elements of a set in an order of its own; \<open>list_of\<close> is that
  order, the value of \<^verbatim>\<open>list(s)\<close>. \<open>set_order\<close> says what is known of it: it
  lists each element of the set once.
\<close>

definition set_order :: "('a set \<Rightarrow> 'a list) \<Rightarrow> 'a set \<Rightarrow> bool" where
  "set_order list_of names \<longleftrightarrow> (\<forall>s. s \<subseteq> names \<longrightarrow> set (list_of s) = s \<and> distinct (list_of s))"

definition powerset :: "('a set \<Rightarrow> 'a list) \<Rightarrow> 'a set \<Rightarrow> 'a set list" where
  "powerset list_of s =
     (let s = list_of s
      in map set (concat (map (\<lambda>r. combinations s r) [0..<length s + 1])))"

fun for_each :: "'a list \<Rightarrow> ('a \<Rightarrow> 's \<Rightarrow> py_error + 's) \<Rightarrow> 's \<Rightarrow> py_error + 's" where
  "for_each [] body s = Inr s"
| "for_each (x # xs) body s = bind_err (body x s) (for_each xs body)"

text \<open>\<^verbatim>\<open>any(... for person in names)\<close>, which stops at the first true element.\<close>

fun fails_evidence :: "people \<Rightarrow> string set \<Rightarrow> string list \<Rightarrow> py_error + bool" where
  "fails_evidence people have_trait [] = Inr False"
| "fails_evidence people have_trait (person # rest) =
     bind_err (dict_get (map_of people) person) (\<lambda>row.
       if trait row \<noteq> None \<and> trait row \<noteq> Some (person \<in> have_trait) then Inr True
       else fails_evidence people have_trait rest)"

definition init_probabilities :: "people \<Rightarrow> probabilities" where
  "init_probabilities people =
     map (\<lambda>person. (person, \<lparr>gene = (\<lambda>_. 0), trait_dist = (\<lambda>_. 0)\<rparr>)) (map fst people)"

text \<open>The body of the innermost loop, lines 82 and 83.\<close>

definition gene_body ::
  "people \<Rightarrow> string set \<Rightarrow> string set \<Rightarrow> string set \<Rightarrow> probabilities
     \<Rightarrow> py_error + probabilities" where
  "gene_body people have_trait one_gene two_genes probabilities =
     bind_err (joint_probability people one_gene two_genes have_trait) (\<lambda>p.
       Inr (update probabilities one_gene two_genes have_trait p))"

text \<open>The body of the loop over \<^verbatim>\<open>have_trait\<close>, lines 68 to 83.\<close>

definition trait_body ::
  "(string set \<Rightarrow> string list) \<Rightarrow> people \<Rightarrow> string set \<Rightarrow> string set \<Rightarrow> probabilities
     \<Rightarrow> py_error + probabilities" where
  "trait_body list_of people names have_trait probabilities =
     bind_err (fails_evidence people have_trait (list_of names)) (\<lambda>fails.
       if fails then Inr probabilities
       else for_each (powerset list_of names) (\<lambda>one_gene.
              for_each (powerset list_of (names - one_gene))
                (gene_body people have_trait one_gene)) probabilities)"

text \<open>Lines 48 to 83: the table after the search, before \<^verbatim>\<open>normalize\<close>.\<close>

definition accumulate ::
  "(string set \<Rightarrow> string list) \<Rightarrow> people \<Rightarrow> py_error + probabilities" where
  "accumulate list_of people =
     (let probabilities = init_probabilities people;
          names = set (map fst people)
      in for_each (powerset list_of names) (trait_body list_of people names) probabilities)"

text \<open>
  \<^verbatim>\<open>main\<close> from the loaded table to the table handed to the printing loop.
\<close>

definition main :: "(string set \<Rightarrow> string list) \<Rightarrow> people \<Rightarrow> py_error + probabilities" where
  "main list_of people = bind_err (accumulate list_of people) normalize"

text \<open>
  The pairs \<open>(one_gene, two_genes)\<close> in the order in which the two inner loops of
  \<^verbatim>\<open>main\<close> visit them.
\<close>

definition gene_configurations ::
  "('a set \<Rightarrow> 'a list) \<Rightarrow> 'a set \<Rightarrow> ('a set \<times> 'a set) list" where
  "gene_configurations list_of names =
     concat (map (\<lambda>one_gene. map (\<lambda>two_genes. (one_gene, two_genes))
                                (powerset list_of (names - one_gene)))
               (powerset list_of names))"

subsection \<open>Sequences of calls and a sample table\<close>

text \<open>
  The table after a sequence of calls of \<^verbatim>\<open>update\<close>, each call given by its
  arguments \<open>(one_gene, two_genes, have_trait, p)\<close>; \<open>call_p\<close> is the \<open>p\<close> of a call.
\<close>

definition run_updates ::
  "(string set \<times> string set \<times> string set \<times> real) list \<Rightarrow> probabilities \<Rightarrow> probabilities" where
  "run_updates calls probabilities =
     fold (\<lambda>(one_gene, two_genes, have_trait, p) probs.
             update probs one_gene two_genes have_trait p) calls probabilities"

definition call_p :: "string set \<times> string set \<times> string set \<times> real \<Rightarrow> real" where
  "call_p c = snd (snd (snd c))"

definition harry :: people where
  "harry = [(''Harry'', \<lparr>name = ''Harry'', mother = None, father = None, trait = None\<rparr>)]"

text \<open>
  An order of iteration over sets: the one in which a fixed list has the elements. And a
  table with a child and its two parents.
\<close>

definition order_by :: "'a list \<Rightarrow> 'a set \<Rightarrow> 'a list" where
  "order_by xs s = filter (\<lambda>x. x \<in> s) xs"

definition family :: people where
  "family =
     [(''Harry'', \<lparr>name = ''Harry'', mother = Some ''Lily'', father = Some ''James'', trait = None\<rparr>),
      (''James'', \<lparr>name = ''James'', mother = None, father = None, trait = Some True\<rparr>),
      (''Lily'', \<lparr>name = ''Lily'', mother = None, father = None, trait = Some False\<rparr>)]"

text \<open>
  The chain inside \<^verbatim>\<open>powerset\<close>: the combinations of each length from 0 to
  \<^verbatim>\<open>len(s)\<close>, one length after the other.
\<close>

definition all_combinations :: "'a list \<Rightarrow> 'a list list" where
  "all_combinations s = concat (map (\<lambda>r. combinations s r) [0..<length s + 1])"

subsection \<open>The calls of \<^verbatim>\<open>update\<close> made by \<^verbatim>\<open>main\<close>\<close>

text \<open>
  \<open>known_mismatch\<close> is the evidence filter read off the table: some person has known
  trait evidence that differs from the membership in \<^verbatim>\<open>have_trait\<close>. \<open>all_calls\<close> lists
  the calls of \<^verbatim>\<open>update\<close> in the order in which the three loops of \<^verbatim>\<open>main\<close> make them,
  each with the product of the per-person factors as its \<open>p\<close>. \<open>nonneg_dist\<close> and
  \<open>normalized_dist\<close> are the properties of one person's entry before and after
  \<^verbatim>\<open>normalize\<close>.
\<close>

definition known_mismatch :: "people \<Rightarrow> string set \<Rightarrow> bool" where
  "known_mismatch people have_trait \<longleftrightarrow>
     list_ex (\<lambda>(person, row). trait row \<noteq> None \<and> trait row \<noteq> Some (person \<in> have_trait)) people"

definition all_calls ::
  "(string set \<Rightarrow> string list) \<Rightarrow> people
     \<Rightarrow> (string set \<times> string set \<times> string set \<times> real) list" where
  "all_calls list_of people =
     concat (map (\<lambda>have_trait.
         if known_mismatch people have_trait then []
         else map (\<lambda>(one_gene, two_genes).
                 (one_gene, two_genes, have_trait,
                  spec_joint people one_gene two_genes have_trait))
               (gene_configurations list_of (set (map fst people))))
       (powerset list_of (set (map fst people))))"

definition nonneg_dist :: "distribution \<Rightarrow> bool" where
  "nonneg_dist d \<longleftrightarrow> (\<forall>n. 0 \<le> gene d n) \<and> (\<forall>t. 0 \<le> trait_dist d t)"

definition normalized_dist :: "distribution \<Rightarrow> bool" where
  "normalized_dist d \<longleftrightarrow>
     gene_total d = 1 \<and> trait_total d = 1
     \<and> (\<forall>n \<in> {0, 1, 2}. 0 \<le> gene d n \<and> gene d n \<le> 1)
     \<and> (\<forall>t. 0 \<le> trait_dist d t \<and> trait_dist d t \<le> 1)"




section \<open>Properties of the gene matrix\<close>

lemma create_gene_matrix_value:
  "create_gene_matrix =
     [[[9801/10000, 495/1000, 99/10000], [495/1000, 25/100, 495/100000], [99/10000, 495/100000, 1/10000]],
      [[198/10000, 5/10, 9802/10000], [5/10, 5/10, 5/10], [9802/10000, 5/10, 198/10000]],
      [[1/10000, 5/1000, 99/10000], [5/1000, 25/100, 495/1000], [99/10000, 495/1000, 9801/10000]]]"
  by code_simp

lemma less_3_cases: "(n::nat) < 3 \<Longrightarrow> n = 0 \<or> n = 1 \<or> n = 2"
  by arith

lemma gene_matrix_positive:
  assumes "c < 3" "pA < 3" "pB < 3"
  shows "0 < get3 create_gene_matrix c pA pB"
  using less_3_cases [OF assms(1)] less_3_cases [OF assms(2)] less_3_cases [OF assms(3)]
  unfolding create_gene_matrix_value get3_def
  by (elim disjE) simp_all

text \<open>
  Away from the two entries for a child with no copy whose parents have one and two
  copies, the matrix of the program is the one the derivation gives.
\<close>

lemma gene_matrix_agrees_elsewhere:
  assumes "c < 3" "pA < 3" "pB < 3"
    and "(c, pA, pB) \<noteq> (0, 2, 1)" "(c, pA, pB) \<noteq> (0, 1, 2)"
  shows "get3 create_gene_matrix c pA pB = spec_transition PROBS_mutation c pA pB"
  using less_3_cases [OF assms(1)] less_3_cases [OF assms(2)] less_3_cases [OF assms(3)]
    assms(4,5)
  unfolding create_gene_matrix_value get3_def spec_transition_def spec_q_def PROBS_mutation_def
  by (elim disjE) simp_all

text \<open>
  C1. The entry for a child with no copy, one parent with two copies and the other with
  one copy: the program stores \<open>0.5 * P_NM * P_M = 0.00495\<close>, where the derivation
  gives \<open>(1 - q 2) * (1 - q 1) = 0.01 * 0.5 = 0.005\<close>. The mirrored entry
  \<^verbatim>\<open>gene_matrix[2][1][0]\<close> of the program has both terms
  \<open>0.5 * P_M^2 + 0.5 * P_M * P_NM\<close>; this one lacks the term \<open>0.5 * P_M^2\<close>.
\<close>

theorem gene_matrix_entry_0_2_1_differs:
  "get3 create_gene_matrix 0 2 1 = 495/100000
   \<and> spec_transition PROBS_mutation 0 2 1 = 5/1000
   \<and> get3 create_gene_matrix 0 2 1 \<noteq> spec_transition PROBS_mutation 0 2 1
   \<and> get3 create_gene_matrix 2 1 0 = spec_transition PROBS_mutation 2 1 0"
  unfolding create_gene_matrix_value get3_def spec_transition_def spec_q_def PROBS_mutation_def
  by simp

text \<open>
  C2. For the parents with two copies and one copy the three entries of the program add
  up to \<open>0.99995\<close>, which is further from 1 than the tolerance \<open>1e-9\<close>.
\<close>

theorem gene_matrix_row_2_1_sum:
  "row_sum create_gene_matrix 2 1 = 99995/100000
   \<and> \<bar>row_sum create_gene_matrix 2 1 - 1\<bar> > 1 / 10^9"
  unfolding create_gene_matrix_value get3_def row_sum_def
  by simp

text \<open>
  C8. The gene matrix is symmetric in the two parent indices: for all child counts
  \<open>c\<close> and parent counts \<open>pA\<close>, \<open>pB\<close> in 0, 1, 2 the entries at \<open>(c, pA, pB)\<close>
  and \<open>(c, pB, pA)\<close> are equal.
\<close>

theorem gene_matrix_symmetric:
  assumes "c < 3" "pA < 3" "pB < 3"
  shows "get3 create_gene_matrix c pA pB = get3 create_gene_matrix c pB pA"
  using less_3_cases [OF assms(1)] less_3_cases [OF assms(2)] less_3_cases [OF assms(3)]
  unfolding create_gene_matrix_value get3_def
  by (elim disjE) simp_all

theorem gene_matrix_symmetric_witness:
  "(0::nat) < 3 \<and> (2::nat) < 3 \<and> (1::nat) < 3
   \<and> get3 create_gene_matrix 0 2 1 = get3 create_gene_matrix 0 1 2"
  using gene_matrix_symmetric [of 0 2 1] by simp

section \<open>The accumulator\<close>

lemma genes_of_less_3: "genes_of one_gene two_genes person < 3"
  by (simp add: genes_of_def)

lemma update_person_eq:
  "update_person one_gene two_genes have_trait p person d =
     d\<lparr>gene := (gene d)(genes_of one_gene two_genes person :=
                  gene d (genes_of one_gene two_genes person) + p),
       trait_dist := (trait_dist d)((person \<in> have_trait) :=
                  trait_dist d (person \<in> have_trait) + p)\<rparr>"
  by (simp add: update_person_def genes_of_def Let_def)

lemma gene_total_eq: "gene_total d = gene d 0 + gene d 1 + gene d 2"
  by (simp add: gene_total_def)

lemma trait_total_eq: "trait_total d = trait_dist d True + trait_dist d False"
  by (simp add: trait_total_def)

lemma gene_total_update_person:
  "gene_total (update_person one_gene two_genes have_trait p person d) = gene_total d + p"
  by (simp add: update_person_eq gene_total_eq genes_of_def)

lemma trait_total_update_person:
  "trait_total (update_person one_gene two_genes have_trait p person d) = trait_total d + p"
  by (cases "person \<in> have_trait") (simp_all add: update_person_eq trait_total_eq)

lemma map_fst_update [simp]:
  "map fst (update probabilities one_gene two_genes have_trait p) = map fst probabilities"
  by (induction probabilities) (auto simp: update_def)

lemma map_fst_run_updates [simp]:
  "map fst (run_updates calls probabilities) = map fst probabilities"
  by (induction calls arbitrary: probabilities) (auto simp: run_updates_def)

lemma run_updates_Nil [simp]: "run_updates [] probabilities = probabilities"
  by (simp add: run_updates_def)

lemma run_updates_Cons [simp]:
  "run_updates ((one_gene, two_genes, have_trait, p) # calls) probabilities =
     run_updates calls (update probabilities one_gene two_genes have_trait p)"
  by (simp add: run_updates_def)

lemma run_updates_append [simp]:
  "run_updates (xs @ ys) probabilities = run_updates ys (run_updates xs probabilities)"
  by (simp add: run_updates_def)

lemma run_updates_totals:
  assumes "\<forall>(person, d) \<in> set probabilities. gene_total d = s \<and> trait_total d = s"
  shows "\<forall>(person, d) \<in> set (run_updates calls probabilities).
           gene_total d = s + sum_list (map call_p calls) \<and>
           trait_total d = s + sum_list (map call_p calls)"
  using assms
proof (induction calls arbitrary: probabilities s)
  case Nil
  then show ?case by simp
next
  case (Cons c calls)
  obtain one_gene two_genes have_trait p where c: "c = (one_gene, two_genes, have_trait, p)"
    by (cases c) auto
  have "\<forall>(person, d) \<in> set (update probabilities one_gene two_genes have_trait p).
          gene_total d = s + p \<and> trait_total d = s + p"
    using Cons.prems
    by (auto simp: update_def gene_total_update_person trait_total_update_person)
  from Cons.IH [OF this] show ?case
    by (simp add: c call_p_def add.assoc)
qed

lemma init_totals:
  "\<forall>(person, d) \<in> set (init_probabilities people). gene_total d = 0 \<and> trait_total d = 0"
  by (auto simp: init_probabilities_def gene_total_eq trait_total_eq)



lemma bind_err_Inr [simp]: "bind_err (Inr v) f = f v"
  by (simp add: bind_err_def)

lemma bind_err_Inl [simp]: "bind_err (Inl e) f = Inl e"
  by (simp add: bind_err_def)

lemma dict_get_Some [simp]: "d k = Some v \<Longrightarrow> dict_get d k = Inr v"
  by (simp add: dict_get_def)

lemma dict_get_None [simp]: "d k = None \<Longrightarrow> dict_get d k = Inl KeyError"
  by (simp add: dict_get_def)

lemma set_order_order_by:
  assumes "distinct xs" "names \<subseteq> set xs"
  shows "set_order (order_by xs) names"
  using assms by (auto simp: set_order_def order_by_def)

subsection \<open>normalize\<close>





subsection \<open>fails evidence\<close>

lemma fails_evidence_eq:
  assumes "set names \<subseteq> set (map fst people)"
  shows "fails_evidence people have_trait names =
           Inr (\<exists>person \<in> set names. \<exists>row t. map_of people person = Some row
                  \<and> trait row = Some t \<and> t \<noteq> (person \<in> have_trait))"
  using assms
proof (induction names)
  case Nil
  then show ?case by simp
next
  case (Cons person names)
  then have "person \<in> fst ` set people" by simp
  then obtain row where row: "map_of people person = Some row"
    by (metis domD dom_map_of_conv_image_fst)
  show ?case
  proof (cases "trait row")
    case None
    then show ?thesis using Cons row by auto
  next
    case (Some t)
    then show ?thesis using Cons row by auto
  qed
qed

text \<open>
  C7. On a table as the program expects it, the body of the loop over \<^verbatim>\<open>have_trait\<close>
  leaves the accumulators as they are exactly when some person has known trait evidence
  that differs from the person's membership in \<^verbatim>\<open>have_trait\<close>; otherwise it runs the
  two loops over the gene sets. A person with unknown evidence plays no part.
\<close>

theorem trait_subset_skipped_iff:
  assumes "wf_people people" and "set_order list_of (set (map fst people))"
  shows "trait_body list_of people (set (map fst people)) have_trait probabilities =
     (if (\<exists>(person, row) \<in> set people. \<exists>t. trait row = Some t \<and> (person \<in> have_trait) \<noteq> t)
      then Inr probabilities
      else for_each (powerset list_of (set (map fst people))) (\<lambda>one_gene.
             for_each (powerset list_of (set (map fst people) - one_gene))
               (gene_body people have_trait one_gene)) probabilities)"
proof -
  let ?names = "set (map fst people)"
  have d: "distinct (map fst people)" using assms(1) by (simp add: wf_people_def)
  have "set (list_of ?names) = ?names"
    using assms(2) by (simp add: set_order_def)
  then have "fails_evidence people have_trait (list_of ?names) =
           Inr (\<exists>person \<in> ?names. \<exists>row t. map_of people person = Some row
                  \<and> trait row = Some t \<and> t \<noteq> (person \<in> have_trait))"
    using fails_evidence_eq [of "list_of ?names" people have_trait] by simp
  moreover have "(\<exists>person \<in> ?names. \<exists>row t. map_of people person = Some row
                  \<and> trait row = Some t \<and> t \<noteq> (person \<in> have_trait))
      \<longleftrightarrow> (\<exists>(person, row) \<in> set people. \<exists>t. trait row = Some t \<and> (person \<in> have_trait) \<noteq> t)"
    using d by (force simp: map_of_eq_Some_iff)
  ultimately show ?thesis
    by (simp add: trait_body_def)
qed

theorem trait_subset_skipped_iff_witness:
  "wf_people family \<and> set_order (order_by (map fst family)) (set (map fst family))
   \<and> trait_body (order_by (map fst family)) family (set (map fst family)) {''Lily''}
        (init_probabilities family) = Inr (init_probabilities family)"
proof -
  have w: "wf_people family"
    by (simp add: wf_people_def family_def parent_ok_def)
  have o: "set_order (order_by (map fst family)) (set (map fst family))"
    by (rule set_order_order_by) (simp_all add: family_def)
  have "\<exists>(person, row) \<in> set family. \<exists>t. trait row = Some t \<and> (person \<in> {''Lily''}) \<noteq> t"
    by (auto simp: family_def)
  then show ?thesis
    using w o trait_subset_skipped_iff [OF w o, of "{''Lily''}" "init_probabilities family"]
    by simp
qed

subsection \<open>joint probability\<close>

lemma fold_ref_eq:
  "fold (\<lambda>person ref. ref(person \<mapsto> f person)) xs m =
     (\<lambda>n. if n \<in> set xs then Some (f n) else m n)"
  by (induction xs arbitrary: m) (auto simp: fun_eq_iff)

lemma build_ref_eq:
  "build_ref people one_gene two_genes have_trait =
     (\<lambda>n. if n \<in> set (map fst people)
           then Some (genes_of one_gene two_genes n, n \<in> have_trait) else None)"
  unfolding build_ref_def by (rule fold_ref_eq)

lemma PROBS_gene_total: "\<exists>v. PROBS_gene (genes_of one_gene two_genes n) = Some v \<and> 0 < v"
proof -
  have "PROBS_gene (genes_of one_gene two_genes n) =
          Some (if n \<in> one_gene then 3/100 else if n \<in> two_genes then 1/100 else 96/100)"
    by (simp add: PROBS_gene_def genes_of_def)
  then show ?thesis by simp
qed

lemma PROBS_trait_total:
  "\<exists>by_trait v. PROBS_trait (genes_of one_gene two_genes n) = Some by_trait
     \<and> by_trait t = Some v \<and> 0 < v"
proof -
  let ?by_trait = "if n \<in> one_gene then [True \<mapsto> 56/100, False \<mapsto> 44/100]
      else if n \<in> two_genes then [True \<mapsto> 65/100, False \<mapsto> 35/100]
      else [True \<mapsto> 1/100, False \<mapsto> 99/100 :: real]"
  let ?v = "if n \<in> one_gene then (if t then 56/100 else 44/100)
      else if n \<in> two_genes then (if t then 65/100 else 35/100)
      else (if t then 1/100 else 99/100 :: real)"
  have "PROBS_trait (genes_of one_gene two_genes n) = Some ?by_trait"
    by (simp add: PROBS_trait_def genes_of_def)
  moreover have "?by_trait t = Some ?v"
    by simp
  moreover have "0 < ?v"
    by simp
  ultimately show ?thesis by blast
qed

lemma spec_trait_factor_pos: "0 < spec_trait_factor one_gene two_genes have_trait n"
  using PROBS_trait_total [of one_gene two_genes n "n \<in> have_trait"]
  by (auto simp: spec_trait_factor_def)

lemma spec_gene_factor_pos: "0 < spec_gene_factor one_gene two_genes n r"
proof (cases "father r")
  case None
  then show ?thesis
    using PROBS_gene_total [of one_gene two_genes n] by (auto simp: spec_gene_factor_def)
next
  case f: (Some f)
  show ?thesis
  proof (cases "mother r")
    case None
    then show ?thesis
      using f PROBS_gene_total [of one_gene two_genes n] by (auto simp: spec_gene_factor_def)
  next
    case (Some m)
    then show ?thesis
      using f gene_matrix_positive [OF genes_of_less_3 genes_of_less_3 genes_of_less_3]
      by (simp add: spec_gene_factor_def)
  qed
qed

lemma person_prob_eq:
  assumes "wf_people people" and "(n, r) \<in> set people"
  shows "person_prob people create_gene_matrix
           (build_ref people one_gene two_genes have_trait) n =
         Inr (spec_gene_factor one_gene two_genes n r
              * spec_trait_factor one_gene two_genes have_trait n)"
proof -
  have d: "distinct (map fst people)" using assms(1) by (simp add: wf_people_def)
  have row: "map_of people n = Some r" using d assms(2) by simp
  have nkey: "n \<in> set (map fst people)" using assms(2) by force
  have ok: "(mother r = None \<longleftrightarrow> father r = None)
      \<and> parent_ok people (mother r) \<and> parent_ok people (father r)"
    using assms by (auto simp: wf_people_def list_all_iff)
  obtain by_trait v where tr: "PROBS_trait (genes_of one_gene two_genes n) = Some by_trait"
      "by_trait (n \<in> have_trait) = Some v"
    using PROBS_trait_total [of one_gene two_genes n "n \<in> have_trait"] by blast
  obtain g where g: "PROBS_gene (genes_of one_gene two_genes n) = Some g"
    using PROBS_gene_total [of one_gene two_genes n] by blast
  show ?thesis
  proof (cases "mother r")
    case None
    then have "father r = None" using ok by simp
    then show ?thesis
      using None row nkey tr g
      by (simp add: person_prob_def build_ref_eq spec_gene_factor_def spec_trait_factor_def)
  next
    case (Some m)
    then obtain f where f: "father r = Some f" using ok by auto
    have "m \<in> set (map fst people)" "f \<in> set (map fst people)"
      using ok Some f by (simp_all add: parent_ok_def)
    then show ?thesis
      using Some f row nkey tr
      by (simp add: person_prob_def build_ref_eq spec_gene_factor_def spec_trait_factor_def)
  qed
qed

lemma joint_prob_loop_eq:
  assumes "wf_people people" and "set ps \<subseteq> set people"
  shows "joint_prob_loop people create_gene_matrix
           (build_ref people one_gene two_genes have_trait) (map fst ps) joint_prob =
         Inr (joint_prob @ map (\<lambda>(n, r). spec_gene_factor one_gene two_genes n r
                * spec_trait_factor one_gene two_genes have_trait n) ps)"
  using assms(2)
proof (induction ps arbitrary: joint_prob)
  case Nil
  then show ?case by simp
next
  case (Cons a ps)
  obtain n r where a: "a = (n, r)" by (cases a)
  have "(n, r) \<in> set people" using Cons.prems a by simp
  from person_prob_eq [OF assms(1) this] Cons show ?case
    by (simp add: a)
qed

lemma fold_times_eq: "fold (\<lambda>item final_prob. final_prob * item) xs (a::real) = a * prod_list xs"
  by (induction xs arbitrary: a) (simp_all add: mult.assoc)

text \<open>
  C4. On a table as the program expects it, \<^verbatim>\<open>joint_probability\<close> returns the product
  over all persons of the gene factor and the trait factor of the specification.
\<close>

theorem joint_probability_is_product:
  assumes "wf_people people"
  shows "joint_probability people one_gene two_genes have_trait =
           Inr (spec_joint people one_gene two_genes have_trait)"
  using joint_prob_loop_eq [OF assms subset_refl, of one_gene two_genes have_trait "[]"]
  by (simp add: joint_probability_def spec_joint_def fold_times_eq)

theorem joint_probability_is_product_witness:
  "wf_people family
   \<and> joint_probability family {''Harry''} {''James''} {''James''} =
       Inr (spec_joint family {''Harry''} {''James''} {''James''})"
proof -
  have w: "wf_people family"
    by (simp add: wf_people_def family_def parent_ok_def)
  show ?thesis
    using w joint_probability_is_product [OF w] by simp
qed

lemma spec_joint_pos: "0 < spec_joint people one_gene two_genes have_trait"
  unfolding spec_joint_def
  by (induction people) (auto simp: spec_gene_factor_pos spec_trait_factor_pos)

subsection \<open>combinations and powerset\<close>

lemma Nil_in_subseqs: "[] \<in> set (subseqs xs)"
  by (induction xs) (auto simp: Let_def)

lemma length_le_of_subseqs: "ys \<in> set (subseqs xs) \<Longrightarrow> length ys \<le> length xs"
  by (induction xs arbitrary: ys) (auto simp: Let_def intro: le_SucI)

lemma set_subset_of_subseqs: "ys \<in> set (subseqs xs) \<Longrightarrow> set ys \<subseteq> set xs"
  using subseqs_powset [of xs] by blast

lemma set_combinations:
  "set (combinations xs r) = {ys \<in> set (subseqs xs). length ys = r}"
proof (induction xs r rule: combinations.induct)
  case (1 xs)
  then show ?case using Nil_in_subseqs [of xs] by auto
next
  case (2 r)
  then show ?case by auto
next
  case (3 x xs r)
  then show ?case by (auto simp: Let_def)
qed

lemma distinct_combinations: "distinct xs \<Longrightarrow> distinct (combinations xs r)"
proof (induction xs r rule: combinations.induct)
  case (1 xs)
  then show ?case by simp
next
  case (2 r)
  then show ?case by simp
next
  case (3 x xs r)
  have nx: "x \<notin> set ys" if "ys \<in> set (combinations xs (Suc r))" for ys
    using that 3(3) set_subset_of_subseqs [of ys xs] by (auto simp: set_combinations)
  have "set (map ((#) x) (combinations xs r)) \<inter> set (combinations xs (Suc r)) = {}"
    using nx by fastforce
  then show ?case using 3 by (simp add: distinct_map)
qed

lemma distinct_concat_upt:
  assumes "\<And>r. distinct (f r)" and "\<And>r r'. r \<noteq> r' \<Longrightarrow> set (f r) \<inter> set (f r') = {}"
  shows "distinct (concat (map f [0..<n]))"
proof (induction n)
  case 0
  then show ?case by simp
next
  case (Suc n)
  have "y \<notin> set (f n)" if "r < n" "y \<in> set (f r)" for r y
    using assms(2) [of r n] that by auto
  then show ?case using Suc assms(1) by auto
qed

lemma set_all_combinations: "set (all_combinations xs) = set (subseqs xs)"
proof -
  have h: "length ys = length xs" if "ys \<in> set (subseqs xs)" "\<not> length ys < length xs" for ys
    using length_le_of_subseqs [OF that(1)] that(2) by simp
  show ?thesis
    by (auto simp: all_combinations_def set_combinations intro: h)
qed

lemma distinct_all_combinations: "distinct xs \<Longrightarrow> distinct (all_combinations xs)"
  unfolding all_combinations_def
  by (rule distinct_concat_upt) (auto simp: distinct_combinations set_combinations)

lemma powerset_eq: "powerset list_of s = map set (all_combinations (list_of s))"
  by (simp add: powerset_def all_combinations_def Let_def)

lemma inj_on_set_subseqs: "distinct xs \<Longrightarrow> inj_on set (set (subseqs xs))"
  using distinct_set_subseqs [of xs] by (simp add: distinct_map)

lemma powerset_props:
  assumes "set (list_of s) = s" "distinct (list_of s)"
  shows "set (powerset list_of s) = Pow s" and "distinct (powerset list_of s)"
    and "length (powerset list_of s) = 2 ^ card s"
proof -
  show s: "set (powerset list_of s) = Pow s"
    using subseqs_powset [of "list_of s"] assms(1)
    by (simp add: powerset_eq set_all_combinations)
  show d: "distinct (powerset list_of s)"
    using assms(2) inj_on_set_subseqs [of "list_of s"]
    by (simp add: powerset_eq distinct_map distinct_all_combinations set_all_combinations)
  have "finite s" using assms(1) by (metis List.finite_set)
  then show "length (powerset list_of s) = 2 ^ card s"
    using distinct_card [OF d] s by (simp add: card_Pow)
qed

lemma distinct_concat_map:
  assumes "distinct xs" and "\<And>x. x \<in> set xs \<Longrightarrow> distinct (f x)"
    and "\<And>x y. x \<in> set xs \<Longrightarrow> y \<in> set xs \<Longrightarrow> x \<noteq> y \<Longrightarrow> set (f x) \<inter> set (f y) = {}"
  shows "distinct (concat (map f xs))"
  using assms
proof (induction xs)
  case Nil
  then show ?case by simp
next
  case (Cons a xs)
  have "set (f a) \<inter> set (f y) = {}" if "y \<in> set xs" for y
    using Cons.prems(1) Cons.prems(3) [of a y] that by auto
  then have "set (f a) \<inter> (\<Union>y\<in>set xs. set (f y)) = {}" by blast
  moreover have "distinct (concat (map f xs))"
    using Cons by simp
  ultimately show ?case using Cons.prems(2) by simp
qed

lemma sum_pow_three:
  assumes "finite S"
  shows "(\<Sum>A\<in>Pow S. (2::nat) ^ card (S - A)) = 3 ^ card S"
  using assms
proof (induction S)
  case empty
  then show ?case by simp
next
  case (insert x S)
  have disj: "Pow S \<inter> insert x ` Pow S = {}" using insert.hyps(2) by auto
  have inj: "inj_on (insert x) (Pow S)"
    using insert.hyps(2) by (auto simp: inj_on_def)
  have a: "(\<Sum>A\<in>Pow S. (2::nat) ^ card (insert x S - A)) = 2 * (\<Sum>A\<in>Pow S. 2 ^ card (S - A))"
  proof -
    have "card (insert x S - A) = Suc (card (S - A))" if "A \<in> Pow S" for A
    proof -
      have "insert x S - A = insert x (S - A)" using that insert.hyps(2) by auto
      then show ?thesis using insert.hyps by simp
    qed
    then show ?thesis by (simp add: sum_distrib_left)
  qed
  have b: "(\<Sum>A\<in>insert x ` Pow S. (2::nat) ^ card (insert x S - A)) = (\<Sum>A\<in>Pow S. 2 ^ card (S - A))"
  proof -
    have "insert x S - insert x A = S - A" if "A \<in> Pow S" for A
      using that insert.hyps(2) by auto
    then show ?thesis by (simp add: sum.reindex [OF inj])
  qed
  have "(\<Sum>A\<in>Pow (insert x S). (2::nat) ^ card (insert x S - A)) =
        (\<Sum>A\<in>Pow S. 2 ^ card (insert x S - A)) + (\<Sum>A\<in>insert x ` Pow S. 2 ^ card (insert x S - A))"
    using insert.hyps(1) disj by (simp add: Pow_insert sum.union_disjoint)
  then show ?case using a b insert by simp
qed

lemma gene_configurations_props:
  assumes "set_order list_of names"
  shows "set (gene_configurations list_of names) =
           {(one_gene, two_genes). one_gene \<subseteq> names \<and> two_genes \<subseteq> names - one_gene}"
    and "distinct (gene_configurations list_of names)"
    and "length (gene_configurations list_of names) = 3 ^ card names"
proof -
  have top: "set (list_of names) = names" "distinct (list_of names)"
    using assms by (simp_all add: set_order_def)
  have sub: "set (list_of (names - A)) = names - A" "distinct (list_of (names - A))" for A
    using assms by (simp_all add: set_order_def)
  note P = powerset_props [of list_of names, OF top]
  have Q: "set (powerset list_of (names - A)) = Pow (names - A)"
      "distinct (powerset list_of (names - A))"
      "length (powerset list_of (names - A)) = 2 ^ card (names - A)" for A
    using powerset_props [of list_of "names - A", OF sub] by blast+
  have fin: "finite names" using top(1) by (metis List.finite_set)
  show "set (gene_configurations list_of names) =
           {(one_gene, two_genes). one_gene \<subseteq> names \<and> two_genes \<subseteq> names - one_gene}"
    by (auto simp: gene_configurations_def P(1) Q(1))
  show "distinct (gene_configurations list_of names)"
    unfolding gene_configurations_def
    by (rule distinct_concat_map) (auto simp: P(2) Q(2) distinct_map inj_on_def)
  have "length (gene_configurations list_of names) =
          (\<Sum>A\<leftarrow>powerset list_of names. 2 ^ card (names - A))"
    by (simp add: gene_configurations_def length_concat comp_def Q(3))
  also have "\<dots> = (\<Sum>A\<in>Pow names. 2 ^ card (names - A))"
    using sum_list_distinct_conv_sum_set [OF P(2), of "\<lambda>A. 2 ^ card (names - A)"] P(1) by simp
  also have "\<dots> = 3 ^ card names" by (rule sum_pow_three [OF fin])
  finally show "length (gene_configurations list_of names) = 3 ^ card names" .
qed

text \<open>
  C6. When the iteration order lists every subset of the names once, the two inner loops
  of \<^verbatim>\<open>main\<close> visit every pair of disjoint subsets \<open>(one_gene, two_genes)\<close> of the names
  exactly once: the visited pairs are distinct and they are all such pairs. For \<open>N\<close>
  names there are \<open>3 ^ N\<close> of them, and \<^verbatim>\<open>powerset\<close> gives each of the \<open>2 ^ N\<close> subsets
  of the names once.
\<close>

theorem enumeration_covers_each_partition_once:
  assumes "set_order list_of names"
  shows "distinct (gene_configurations list_of names)
     \<and> set (gene_configurations list_of names) =
         {(one_gene, two_genes). one_gene \<inter> two_genes = {} \<and> one_gene \<union> two_genes \<subseteq> names}
     \<and> length (gene_configurations list_of names) = 3 ^ card names
     \<and> distinct (powerset list_of names)
     \<and> set (powerset list_of names) = Pow names
     \<and> length (powerset list_of names) = 2 ^ card names"
proof -
  have top: "set (list_of names) = names" "distinct (list_of names)"
    using assms by (simp_all add: set_order_def)
  have "{(one_gene, two_genes). one_gene \<subseteq> names \<and> two_genes \<subseteq> names - one_gene} =
         {(one_gene, two_genes). one_gene \<inter> two_genes = {} \<and> one_gene \<union> two_genes \<subseteq> names}"
    by auto
  then show ?thesis
    using gene_configurations_props [OF assms] powerset_props [of list_of names, OF top] by simp
qed

theorem enumeration_covers_each_partition_once_witness:
  "set_order (order_by [''Harry'', ''James'']) {''Harry'', ''James''}
   \<and> length (gene_configurations (order_by [''Harry'', ''James'']) {''Harry'', ''James''}) = 9
   \<and> length (powerset (order_by [''Harry'', ''James'']) {''Harry'', ''James''}) = 4
   \<and> ({''James''}, {''Harry''})
        \<in> set (gene_configurations (order_by [''Harry'', ''James'']) {''Harry'', ''James''})"
proof -
  have o: "set_order (order_by [''Harry'', ''James'']) {''Harry'', ''James''}"
    by (rule set_order_order_by) simp_all
  show ?thesis
    using o enumeration_covers_each_partition_once [OF o] by simp
qed

subsection \<open>The loops of main as a sequence of calls of update\<close>

lemma for_each_run_updates:
  assumes "\<And>x probs. x \<in> set xs \<Longrightarrow> body x probs = Inr (run_updates (calls x) probs)"
  shows "for_each xs body probs = Inr (run_updates (concat (map calls xs)) probs)"
  using assms
proof (induction xs arbitrary: probs)
  case Nil
  then show ?case by simp
next
  case (Cons x xs)
  then show ?case by simp
qed

lemma joint_probability_eq:
  assumes "wf_people people"
  shows "joint_probability people one_gene two_genes have_trait =
           Inr (spec_joint people one_gene two_genes have_trait)"
  using joint_prob_loop_eq [OF assms subset_refl, of one_gene two_genes have_trait "[]"]
  by (simp add: joint_probability_def spec_joint_def fold_times_eq)

lemma gene_body_eq:
  assumes "wf_people people"
  shows "gene_body people have_trait one_gene two_genes probs =
     Inr (run_updates [(one_gene, two_genes, have_trait,
                        spec_joint people one_gene two_genes have_trait)] probs)"
  using joint_probability_eq [OF assms]
  by (simp add: gene_body_def)

lemma gene_loops_eq:
  assumes "wf_people people"
  shows "for_each (powerset list_of names) (\<lambda>one_gene.
             for_each (powerset list_of (names - one_gene))
               (gene_body people have_trait one_gene)) probs =
         Inr (run_updates (map (\<lambda>(one_gene, two_genes).
                 (one_gene, two_genes, have_trait,
                  spec_joint people one_gene two_genes have_trait))
               (gene_configurations list_of names)) probs)"
proof -
  have inner: "for_each (powerset list_of (names - one_gene))
               (gene_body people have_trait one_gene) probs =
        Inr (run_updates (map (\<lambda>two_genes. (one_gene, two_genes, have_trait,
                  spec_joint people one_gene two_genes have_trait))
               (powerset list_of (names - one_gene))) probs)" for one_gene probs
    using for_each_run_updates [of "powerset list_of (names - one_gene)"
        "gene_body people have_trait one_gene"
        "\<lambda>two_genes. [(one_gene, two_genes, have_trait,
                  spec_joint people one_gene two_genes have_trait)]" probs]
      gene_body_eq [OF assms]
    by simp
  have "for_each (powerset list_of names) (\<lambda>one_gene.
             for_each (powerset list_of (names - one_gene))
               (gene_body people have_trait one_gene)) probs =
        Inr (run_updates (concat (map (\<lambda>one_gene. map (\<lambda>two_genes. (one_gene, two_genes, have_trait,
                  spec_joint people one_gene two_genes have_trait))
               (powerset list_of (names - one_gene))) (powerset list_of names))) probs)"
    by (rule for_each_run_updates) (rule inner)
  then show ?thesis
    by (simp add: gene_configurations_def map_concat comp_def)
qed

lemma known_mismatch_iff:
  "known_mismatch people have_trait \<longleftrightarrow>
     (\<exists>(person, row) \<in> set people. \<exists>t. trait row = Some t \<and> (person \<in> have_trait) \<noteq> t)"
proof -
  have h: "(trait row \<noteq> None \<and> trait row \<noteq> Some b) \<longleftrightarrow> (\<exists>t. trait row = Some t \<and> b \<noteq> t)"
    for row :: person and b
    by (cases "trait row") auto
  show ?thesis
    unfolding known_mismatch_def list_ex_iff
  proof (rule bex_cong [OF refl])
    fix x :: "string \<times> person"
    show "(case x of (person, row) \<Rightarrow>
             trait row \<noteq> None \<and> trait row \<noteq> Some (person \<in> have_trait)) =
          (case x of (person, row) \<Rightarrow>
             \<exists>t. trait row = Some t \<and> (person \<in> have_trait) \<noteq> t)"
      by (cases x) (simp only: prod.case h)
  qed
qed

lemma fails_evidence_names:
  assumes "wf_people people" and "set_order list_of (set (map fst people))"
  shows "fails_evidence people have_trait (list_of (set (map fst people))) =
           Inr (known_mismatch people have_trait)"
proof -
  let ?names = "set (map fst people)"
  have d: "distinct (map fst people)" using assms(1) by (simp add: wf_people_def)
  have "set (list_of ?names) = ?names"
    using assms(2) by (simp add: set_order_def)
  then have "fails_evidence people have_trait (list_of ?names) =
           Inr (\<exists>person \<in> ?names. \<exists>row t. map_of people person = Some row
                  \<and> trait row = Some t \<and> t \<noteq> (person \<in> have_trait))"
    using fails_evidence_eq [of "list_of ?names" people have_trait] by simp
  moreover have "(\<exists>person \<in> ?names. \<exists>row t. map_of people person = Some row
                  \<and> trait row = Some t \<and> t \<noteq> (person \<in> have_trait))
      \<longleftrightarrow> known_mismatch people have_trait"
    unfolding known_mismatch_iff using d by (force simp: map_of_eq_Some_iff)
  ultimately show ?thesis by simp
qed

lemma accumulate_eq:
  assumes "wf_people people" and "set_order list_of (set (map fst people))"
  shows "accumulate list_of people =
           Inr (run_updates (all_calls list_of people) (init_probabilities people))"
proof -
  let ?names = "set (map fst people)"
  have "trait_body list_of people ?names have_trait probs =
      Inr (run_updates (if known_mismatch people have_trait then []
         else map (\<lambda>(one_gene, two_genes).
                 (one_gene, two_genes, have_trait,
                  spec_joint people one_gene two_genes have_trait))
               (gene_configurations list_of ?names)) probs)" for have_trait probs
    using fails_evidence_names [OF assms, of have_trait]
      gene_loops_eq [OF assms(1), of list_of ?names have_trait probs]
    by (simp add: trait_body_def)
  then show ?thesis
    unfolding accumulate_def all_calls_def Let_def
    by (intro for_each_run_updates)
qed

subsection \<open>The output of main\<close>

lemma accepted_exists:
  assumes "wf_people people"
  shows "\<exists>have_trait. have_trait \<subseteq> set (map fst people) \<and> \<not> known_mismatch people have_trait"
proof -
  let ?ht = "{person. \<exists>row. (person, row) \<in> set people \<and> trait row = Some True}"
  have d: "distinct (map fst people)" using assms by (simp add: wf_people_def)
  have "?ht \<subseteq> set (map fst people)" by force
  moreover have "\<not> known_mismatch people ?ht"
  proof
    assume "known_mismatch people ?ht"
    then obtain person row t where m: "(person, row) \<in> set people" "trait row = Some t"
        "(person \<in> ?ht) \<noteq> t"
      by (auto simp: known_mismatch_iff)
    show False
    proof (cases t)
      case True
      then show ?thesis using m by auto
    next
      case False
      then obtain row' where r: "(person, row') \<in> set people" "trait row' = Some True"
        using m by auto
      have "row' = row" using d m(1) r(1) by (meson eq_key_imp_eq_value)
      then show ?thesis using r(2) m(2) False by simp
    qed
  qed
  ultimately show ?thesis by blast
qed

lemma sum_list_pos_real:
  fixes xs :: "real list"
  assumes "xs \<noteq> []" and "\<And>x. x \<in> set xs \<Longrightarrow> 0 < x"
  shows "0 < sum_list xs"
  using assms
proof (induction xs)
  case Nil
  then show ?case by simp
next
  case (Cons a xs)
  have "0 \<le> sum_list xs"
    by (rule sum_list_nonneg) (use Cons.prems(2) in force)
  moreover have "0 < a" using Cons.prems(2) by simp
  ultimately show ?case by simp
qed

lemma call_p_all_calls_pos:
  assumes "c \<in> set (all_calls list_of people)"
  shows "0 < call_p c"
  using assms spec_joint_pos
  by (auto simp: all_calls_def call_p_def split: if_splits)

lemma all_calls_not_Nil:
  assumes "wf_people people" and "set_order list_of (set (map fst people))"
  shows "all_calls list_of people \<noteq> []"
proof -
  let ?names = "set (map fst people)"
  obtain have_trait where ht: "have_trait \<subseteq> ?names" "\<not> known_mismatch people have_trait"
    using accepted_exists [OF assms(1)] by blast
  have top: "set (list_of ?names) = ?names" "distinct (list_of ?names)"
    using assms(2) by (simp_all add: set_order_def)
  have "have_trait \<in> set (powerset list_of ?names)"
    using powerset_props(1) [of list_of ?names, OF top] ht(1) by simp
  moreover have "({}, {}) \<in> set (gene_configurations list_of ?names)"
    using gene_configurations_props(1) [OF assms(2)] by simp
  ultimately have "({}, {}, have_trait, spec_joint people {} {} have_trait)
      \<in> set (all_calls list_of people)"
    using ht(2) by (force simp: all_calls_def)
  then show ?thesis by auto
qed

lemma all_calls_total_pos:
  assumes "wf_people people" and "set_order list_of (set (map fst people))"
  shows "0 < sum_list (map call_p (all_calls list_of people))"
  using all_calls_not_Nil [OF assms] call_p_all_calls_pos [of _ list_of people]
  by (intro sum_list_pos_real) auto

lemma nonneg_update_person:
  "nonneg_dist d \<Longrightarrow> 0 \<le> p \<Longrightarrow>
     nonneg_dist (update_person one_gene two_genes have_trait p person d)"
  by (simp add: nonneg_dist_def update_person_eq)

lemma run_updates_nonneg:
  assumes "\<forall>(person, d) \<in> set probabilities. nonneg_dist d"
    and "\<forall>c \<in> set calls. 0 \<le> call_p c"
  shows "\<forall>(person, d) \<in> set (run_updates calls probabilities). nonneg_dist d"
  using assms
proof (induction calls arbitrary: probabilities)
  case Nil
  then show ?case by simp
next
  case (Cons c calls)
  obtain one_gene two_genes have_trait p where c: "c = (one_gene, two_genes, have_trait, p)"
    by (cases c) auto
  have "0 \<le> p" using Cons.prems(2) by (simp add: c call_p_def)
  then have "\<forall>(person, d) \<in> set (update probabilities one_gene two_genes have_trait p).
          nonneg_dist d"
    using Cons.prems(1) by (auto simp: update_def nonneg_update_person)
  from Cons.IH [OF this] Cons.prems(2) show ?case
    by (simp add: c)
qed

lemma init_nonneg: "\<forall>(person, d) \<in> set (init_probabilities people). nonneg_dist d"
  by (auto simp: init_probabilities_def nonneg_dist_def)

lemma normalize_person_ok:
  assumes "nonneg_dist d" and "gene_total d = s" and "trait_total d = s" and "0 < s"
  shows "\<exists>d'. normalize_person d = Inr d' \<and> normalized_dist d'"
proof -
  let ?d' = "\<lparr>gene = (gene d)(0 := gene d 0 * (1 / s), 1 := gene d 1 * (1 / s),
                                  2 := gene d 2 * (1 / s)),
              trait_dist = (trait_dist d)(True := trait_dist d True * (1 / s),
                                          False := trait_dist d False * (1 / s))\<rparr>"
  have n: "normalize_person d = Inr ?d'"
    using assms by (simp add: normalize_person_def Let_def)
  have g: "gene d 0 + gene d 1 + gene d 2 = s" using assms(2) by (simp add: gene_total_eq)
  have t: "trait_dist d True + trait_dist d False = s" using assms(3) by (simp add: trait_total_eq)
  have g0: "0 \<le> gene d 0" "0 \<le> gene d 1" "0 \<le> gene d 2"
    and t0: "0 \<le> trait_dist d True" "0 \<le> trait_dist d False"
    using assms(1) by (simp_all add: nonneg_dist_def)
  have gt: "gene_total ?d' = 1"
    using g assms(4) by (simp add: gene_total_eq add_divide_distrib [symmetric])
  have tt: "trait_total ?d' = 1"
    using t assms(4) by (simp add: trait_total_eq add_divide_distrib [symmetric])
  have gb: "\<forall>n \<in> {0, 1, 2}. 0 \<le> gene ?d' n \<and> gene ?d' n \<le> 1"
    using g g0 assms(4) by simp
  have tb: "\<forall>t. 0 \<le> trait_dist ?d' t \<and> trait_dist ?d' t \<le> 1"
  proof
    fix b show "0 \<le> trait_dist ?d' b \<and> trait_dist ?d' b \<le> 1"
      using t t0 assms(4) by (cases b) simp_all
  qed
  show ?thesis using n gt tt gb tb unfolding normalized_dist_def by blast
qed

lemma normalize_ok:
  assumes "\<forall>(person, d) \<in> set probabilities.
             nonneg_dist d \<and> gene_total d = s \<and> trait_total d = s"
    and "0 < s"
  shows "\<exists>out. normalize probabilities = Inr out \<and> map fst out = map fst probabilities
           \<and> (\<forall>(person, d) \<in> set out. normalized_dist d)"
  using assms(1)
proof (induction probabilities)
  case Nil
  then show ?case by simp
next
  case (Cons a probabilities)
  obtain person d where a: "a = (person, d)" by (cases a)
  have "nonneg_dist d" "gene_total d = s" "trait_total d = s"
    using Cons.prems a by auto
  from normalize_person_ok [OF this assms(2)]
  obtain d' where d': "normalize_person d = Inr d'" "normalized_dist d'" by blast
  obtain out where out: "normalize probabilities = Inr out"
      "map fst out = map fst probabilities" "\<forall>(person, d) \<in> set out. normalized_dist d"
    using Cons by auto
  show ?case using d' out by (simp add: a)
qed

lemma main_ok:
  assumes "wf_people people" and "set_order list_of (set (map fst people))"
  shows "\<exists>out. main list_of people = Inr out \<and> map fst out = map fst people
           \<and> (\<forall>(person, d) \<in> set out. normalized_dist d)"
proof -
  let ?calls = "all_calls list_of people"
  let ?acc = "run_updates ?calls (init_probabilities people)"
  let ?s = "sum_list (map call_p ?calls)"
  have acc: "accumulate list_of people = Inr ?acc" by (rule accumulate_eq [OF assms])
  have pos: "0 < ?s" by (rule all_calls_total_pos [OF assms])
  have nn: "\<forall>(person, d) \<in> set ?acc. nonneg_dist d"
    using call_p_all_calls_pos [of _ list_of people]
    by (intro run_updates_nonneg init_nonneg) (auto intro: less_imp_le)
  have tot: "\<forall>(person, d) \<in> set ?acc. gene_total d = 0 + ?s \<and> trait_total d = 0 + ?s"
    by (rule run_updates_totals [OF init_totals])
  have "\<forall>(person, d) \<in> set ?acc. nonneg_dist d \<and> gene_total d = ?s \<and> trait_total d = ?s"
    using nn tot by auto
  from normalize_ok [OF this pos]
  obtain out where "normalize ?acc = Inr out" "map fst out = map fst ?acc"
      "\<forall>(person, d) \<in> set out. normalized_dist d"
    by blast
  then show ?thesis
    using acc by (simp add: main_def init_probabilities_def comp_def)
qed

subsection \<open>Independence of the iteration order\<close>









text \<open>
  C5. On a table as the program expects it, and for any iteration order that lists each
  subset of the names once, \<^verbatim>\<open>main\<close> returns a table (it raises nothing) with the persons
  of the input, in which for every person the three gene entries add up to 1, the two
  trait entries add up to 1, and every entry lies between 0 and 1. The arithmetic is
  exact, so the sums are 1 and not only within a tolerance of it.
\<close>

theorem main_output_distributions:
  assumes "wf_people people" and "set_order list_of (set (map fst people))"
  shows "\<exists>out. main list_of people = Inr out \<and> map fst out = map fst people
           \<and> (\<forall>(person, d) \<in> set out.
                 gene_total d = 1 \<and> trait_total d = 1
                 \<and> (\<forall>n \<in> {0, 1, 2}. 0 \<le> gene d n \<and> gene d n \<le> 1)
                 \<and> (\<forall>t. 0 \<le> trait_dist d t \<and> trait_dist d t \<le> 1))"
  using main_ok [OF assms] unfolding normalized_dist_def .

theorem main_output_distributions_witness:
  "wf_people family \<and> set_order (order_by (map fst family)) (set (map fst family))
   \<and> (\<exists>out. main (order_by (map fst family)) family = Inr out
          \<and> map fst out = [''Harry'', ''James'', ''Lily''])"
proof -
  have w: "wf_people family"
    by (simp add: wf_people_def family_def parent_ok_def)
  have o: "set_order (order_by (map fst family)) (set (map fst family))"
    by (rule set_order_order_by) (simp_all add: family_def)
  obtain out where "main (order_by (map fst family)) family = Inr out"
      "map fst out = map fst family"
    using main_output_distributions [OF w o] by blast
  then show ?thesis using w o by (auto simp: family_def)
qed



subsection \<open>Sample evaluations\<close>

text \<open>
  One founder with no gene and no trait: \<open>0.96 * 0.99\<close>. And outside the expected
  tables: a person with a mother and no father makes \<^verbatim>\<open>ref[None]\<close> fail.
\<close>

lemma joint_probability_harry: "joint_probability harry {} {} {} = Inr (594/625)"
  by (simp add: joint_probability_def harry_def build_ref_def person_prob_def genes_of_def
      PROBS_gene_def PROBS_trait_def dict_get_def)

lemma joint_probability_half_parents:
  "joint_probability
     [(''Harry'', \<lparr>name = ''Harry'', mother = Some ''Lily'', father = None, trait = None\<rparr>),
      (''Lily'', \<lparr>name = ''Lily'', mother = None, father = None, trait = None\<rparr>)]
     {} {} {} = Inl KeyError"
  by (simp add: joint_probability_def build_ref_def person_prob_def genes_of_def
      PROBS_gene_def PROBS_trait_def dict_get_def)

end
